theory Spec2Isabelle
  imports Main "HOL-Library.Sublist"
begin

section \<open>Strings: Python strings as lists of code points\<close>

text \<open>
  A Python \<open>str\<close> is a sequence of Unicode code points, so \<open>len\<close> is \<open>length\<close>.
  The character tables below (white space, decimal digits, word characters, case) are
  those of CPython 3 for the code points below 256; white space is the complete Unicode
  list. Above 255 no code point is classified as a digit, a word character or a cased
  letter, and the case mappings are the identity there.
\<close>

type_synonym str = "nat list"

definition u :: "string \<Rightarrow> str" where
  "u s = map of_char s"

definition isspace_cp :: "nat \<Rightarrow> bool" where
  "isspace_cp c = ((9 \<le> c \<and> c \<le> 13) \<or> (28 \<le> c \<and> c \<le> 32) \<or> c = 133 \<or> c = 160 \<or>
     c = 5760 \<or> (8192 \<le> c \<and> c \<le> 8202) \<or> c = 8232 \<or> c = 8233 \<or> c = 8239 \<or>
     c = 8287 \<or> c = 12288)"

definition isdigit_cp :: "nat \<Rightarrow> bool" where
  "isdigit_cp c = (48 \<le> c \<and> c \<le> 57)"

definition isupper_cp :: "nat \<Rightarrow> bool" where
  "isupper_cp c = ((65 \<le> c \<and> c \<le> 90) \<or> (192 \<le> c \<and> c \<le> 214) \<or> (216 \<le> c \<and> c \<le> 222))"

definition islower_cp :: "nat \<Rightarrow> bool" where
  "islower_cp c = ((97 \<le> c \<and> c \<le> 122) \<or> c = 170 \<or> c = 181 \<or> c = 186 \<or>
     (223 \<le> c \<and> c \<le> 246) \<or> (248 \<le> c \<and> c \<le> 255))"

definition isword_cp :: "nat \<Rightarrow> bool" where
  "isword_cp c = (isdigit_cp c \<or> isupper_cp c \<or> islower_cp c \<or> c = 95 \<or> c = 178 \<or>
     c = 179 \<or> c = 185 \<or> (188 \<le> c \<and> c \<le> 190))"

definition lower_cp :: "nat \<Rightarrow> nat" where
  "lower_cp c = (if isupper_cp c then c + 32 else c)"

definition upper_cp :: "nat \<Rightarrow> nat" where
  "upper_cp c = (if (97 \<le> c \<and> c \<le> 122) \<or> (224 \<le> c \<and> c \<le> 246) \<or> (248 \<le> c \<and> c \<le> 254)
     then c - 32 else if c = 181 then 924 else if c = 255 then 376 else c)"

subsection \<open>The \<open>str\<close> methods the program calls\<close>

definition strip :: "str \<Rightarrow> str" where
  "strip s = rev (dropWhile isspace_cp (rev (dropWhile isspace_cp s)))"

definition lower :: "str \<Rightarrow> str" where
  "lower s = map lower_cp s"

fun startswith :: "str \<Rightarrow> str \<Rightarrow> bool" where
  "startswith s [] = True"
| "startswith [] (p # ps) = False"
| "startswith (c # cs) (p # ps) = (c = p \<and> startswith cs ps)"

definition endswith :: "str \<Rightarrow> str \<Rightarrow> bool" where
  "endswith s p = startswith (rev s) (rev p)"

text \<open>\<open>contains s p\<close> is Python's \<open>p in s\<close>: \<open>p\<close> occurs in \<open>s\<close> as a contiguous run.\<close>

fun contains :: "str \<Rightarrow> str \<Rightarrow> bool" where
  "contains [] p = (p = [])"
| "contains (c # cs) p = (startswith (c # cs) p \<or> contains cs p)"

text \<open>\<open>split_words cur s\<close> is \<open>str.split()\<close> without arguments: the maximal runs of
  characters that are not white space; \<open>cur\<close> is the run being read, reversed.\<close>

fun split_words :: "str \<Rightarrow> str \<Rightarrow> str list" where
  "split_words cur [] = (if cur = [] then [] else [rev cur])"
| "split_words cur (c # cs) =
     (if isspace_cp c then (if cur = [] then split_words [] cs else rev cur # split_words [] cs)
      else split_words (c # cur) cs)"

definition split_ws :: "str \<Rightarrow> str list" where
  "split_ws s = split_words [] s"

text \<open>\<open>str.isupper\<close>: no lower-case character, and at least one upper-case one.\<close>

definition isupper :: "str \<Rightarrow> bool" where
  "isupper s = (\<not> list_ex islower_cp s \<and> list_ex isupper_cp s)"

text \<open>\<open>str.istitle\<close>: upper-case characters only after uncased ones, lower-case characters
  only after cased ones, and at least one cased character. The flags are CPython's
  \<open>previous_is_cased\<close> and \<open>cased\<close>.\<close>

fun istitle_scan :: "bool \<Rightarrow> bool \<Rightarrow> str \<Rightarrow> bool" where
  "istitle_scan prev cased [] = cased"
| "istitle_scan prev cased (c # cs) =
     (if isupper_cp c then (if prev then False else istitle_scan True True cs)
      else if islower_cp c then (if \<not> prev then False else istitle_scan True True cs)
      else istitle_scan False cased cs)"

definition istitle :: "str \<Rightarrow> bool" where
  "istitle s = istitle_scan False False s"

text \<open>\<open>'\n'.join(parts)\<close>.\<close>

fun join_nl :: "str list \<Rightarrow> str" where
  "join_nl [] = []"
| "join_nl [x] = x"
| "join_nl (x # y # ys) = x @ [10] @ join_nl (y # ys)"

section \<open>Regular expressions: the fragment of \<open>re\<close> the program uses\<close>

text \<open>
  A pattern is written as its syntax tree. \<open>Sym\<close> is a character class (a literal
  character is the class of one item), \<open>Dot\<close> is \<open>.\<close> (any character but a newline),
  \<open>Bnd\<close> is \<open>\b\<close>, \<open>Bol\<close> is \<open>^\<close> and \<open>Eol\<close> is \<open>$\<close> (both without MULTILINE),
  \<open>Rep lo hi r\<close> is the greedy repetition \<open>r{lo,hi}\<close> (\<open>hi = None\<close>: unbounded, so
  \<open>r*\<close> is \<open>Rep 0 None r\<close>, \<open>r+\<close> is \<open>Rep 1 None r\<close>, \<open>r?\<close> is \<open>Rep 0 (Some 1) r\<close>),
  \<open>Grp k r\<close> is the capturing group number \<open>k\<close>; a non-capturing group \<open>(?:r)\<close> is
  \<open>r\<close> itself.
\<close>

datatype cset = Ch nat | Rng nat nat | Dig | Wrd | Spc

datatype rx =
    Eps
  | Sym "cset list"
  | Dot
  | Bnd
  | Bol
  | Eol
  | Seq rx rx
  | Alt rx rx
  | Rep nat "nat option" rx
  | Grp nat rx

fun cset_plain :: "cset \<Rightarrow> nat \<Rightarrow> bool" where
  "cset_plain (Ch p) c = (c = p)"
| "cset_plain (Rng lo hi) c = (lo \<le> c \<and> c \<le> hi)"
| "cset_plain Dig c = isdigit_cp c"
| "cset_plain Wrd c = isword_cp c"
| "cset_plain Spc c = isspace_cp c"

text \<open>With IGNORECASE (\<open>ic\<close>) an item matches a character when it matches the character
  itself or one of its case variants.\<close>

definition cset_match :: "bool \<Rightarrow> cset \<Rightarrow> nat \<Rightarrow> bool" where
  "cset_match ic cs c =
     (cset_plain cs c \<or> (ic \<and> (cset_plain cs (lower_cp c) \<or> cset_plain cs (upper_cp c))))"

text \<open>
  A matcher state: the position in the subject, the character before it (\<open>None\<close> at
  the start of the subject), the characters still to read, and the texts captured by the groups
  closed so far (latest first).
\<close>

datatype mstate = MState (pos: nat) (prev: "nat option") (rest: "str") (caps: "(nat \<times> str) list")

definition at_boundary :: "mstate \<Rightarrow> bool" where
  "at_boundary x =
     ((case prev x of None \<Rightarrow> False | Some c \<Rightarrow> isword_cp c) \<noteq>
      (case rest x of [] \<Rightarrow> False | c # _ \<Rightarrow> isword_cp c))"

definition close_group :: "nat \<Rightarrow> mstate \<Rightarrow> mstate \<Rightarrow> mstate" where
  "close_group k x y =
     MState (pos y) (prev y) (rest y) ((k, take (pos y - pos x) (rest x)) # caps y)"

definition step_char :: "mstate \<Rightarrow> mstate" where
  "step_char x = (case rest x of [] \<Rightarrow> x | c # cs \<Rightarrow> MState (Suc (pos x)) (Some c) cs (caps x))"

fun dec :: "nat option \<Rightarrow> nat option" where
  "dec None = None"
| "dec (Some n) = Some (n - 1)"

text \<open>
  \<open>rep_one f n lo hi x\<close>: the end states of a greedy repetition of the body \<open>f\<close> from
  \<open>x\<close>, in the order a backtracking matcher tries them: one more iteration first, then
  stopping here (allowed once \<open>lo\<close> iterations are done). An iteration has to consume
  at least one character (the body of every repetition in the program's patterns does),
  so \<open>n\<close>, the number of characters left, bounds the iterations.
\<close>

fun rep_one :: "(mstate \<Rightarrow> mstate list) \<Rightarrow> nat \<Rightarrow> nat \<Rightarrow> nat option \<Rightarrow> mstate \<Rightarrow> mstate list" where
  "rep_one f 0 lo hi x = (if lo = 0 then [x] else [])"
| "rep_one f (Suc n) lo hi x =
     (if hi = Some 0 then [x]
      else concat (map (rep_one f n (lo - 1) (dec hi)) (filter (\<lambda>y. pos x < pos y) (f x)))
           @ (if lo = 0 then [x] else []))"

text \<open>\<open>ends1 ic r x\<close>: every state in which a match of \<open>r\<close> begun in \<open>x\<close> can end, in
  the matcher's order of preference (the first one is the match \<open>re\<close> reports).\<close>

fun ends1 :: "bool \<Rightarrow> rx \<Rightarrow> mstate \<Rightarrow> mstate list" where
  "ends1 ic Eps x = [x]"
| "ends1 ic (Sym cl) x =
     (case rest x of [] \<Rightarrow> []
      | c # cs \<Rightarrow> if list_ex (\<lambda>i. cset_match ic i c) cl then [step_char x] else [])"
| "ends1 ic Dot x = (case rest x of [] \<Rightarrow> [] | c # cs \<Rightarrow> if c = 10 then [] else [step_char x])"
| "ends1 ic Bnd x = (if at_boundary x then [x] else [])"
| "ends1 ic Bol x = (if pos x = 0 then [x] else [])"
| "ends1 ic Eol x = (if rest x = [] \<or> rest x = [10] then [x] else [])"
| "ends1 ic (Seq a b) x = concat (map (ends1 ic b) (ends1 ic a x))"
| "ends1 ic (Alt a b) x = ends1 ic a x @ ends1 ic b x"
| "ends1 ic (Rep lo hi r) x = rep_one (ends1 ic r) (length (rest x)) lo hi x"
| "ends1 ic (Grp k r) x = map (close_group k x) (ends1 ic r x)"

text \<open>\<open>re.match\<close>: a match at position 0; \<open>re.search\<close>: the leftmost position with a match.\<close>

definition re_match :: "bool \<Rightarrow> rx \<Rightarrow> str \<Rightarrow> bool" where
  "re_match ic r s = (ends1 ic r (MState 0 None s []) \<noteq> [])"

fun search_from :: "bool \<Rightarrow> rx \<Rightarrow> nat \<Rightarrow> nat option \<Rightarrow> str \<Rightarrow> bool" where
  "search_from ic r i p [] = (ends1 ic r (MState i p [] []) \<noteq> [])"
| "search_from ic r i p (c # cs) =
     (if ends1 ic r (MState i p (c # cs) []) \<noteq> [] then True
      else search_from ic r (Suc i) (Some c) cs)"

definition re_search :: "bool \<Rightarrow> rx \<Rightarrow> str \<Rightarrow> bool" where
  "re_search ic r s = search_from ic r 0 None s"

fun seqs :: "rx list \<Rightarrow> rx" where
  "seqs [] = Eps"
| "seqs [r] = r"
| "seqs (r # rs) = Seq r (seqs rs)"

fun alts :: "rx list \<Rightarrow> rx" where
  "alts [] = Eps"
| "alts [r] = r"
| "alts (r # rs) = Alt r (alts rs)"

text \<open>A literal run of characters, and the usual repetitions.\<close>

definition ch :: "char \<Rightarrow> cset" where
  "ch c = Ch (of_char c)"

definition rng :: "char \<Rightarrow> char \<Rightarrow> cset" where
  "rng a b = Rng (of_char a) (of_char b)"

definition lit :: "string \<Rightarrow> rx" where
  "lit s = seqs (map (\<lambda>c. Sym [ch c]) s)"

definition rx_star :: "rx \<Rightarrow> rx" where "rx_star r = Rep 0 None r"
definition rx_plus :: "rx \<Rightarrow> rx" where "rx_plus r = Rep 1 None r"
definition rx_opt :: "rx \<Rightarrow> rx" where "rx_opt r = Rep 0 (Some 1) r"

text \<open>
  \<open>re.findall\<close>: the matches from left to right, none overlapping another. For a
  pattern without a group an item is the matched text, for a pattern with a group it is
  the text of group 1 (empty when the group took no part); the program calls \<open>findall\<close>
  on no pattern with more than one group. After an empty match the matcher tries the
  same position once more for a match that is not empty (\<open>must_advance\<close>).
\<close>

fun ngroups :: "rx \<Rightarrow> nat" where
  "ngroups (Seq a b) = ngroups a + ngroups b"
| "ngroups (Alt a b) = ngroups a + ngroups b"
| "ngroups (Rep lo hi r) = ngroups r"
| "ngroups (Grp k r) = Suc (ngroups r)"
| "ngroups r = 0"

definition findall_item :: "rx \<Rightarrow> mstate \<Rightarrow> mstate \<Rightarrow> str" where
  "findall_item r x y =
     (if ngroups r = 0 then take (pos y - pos x) (rest x)
      else (case map_of (caps y) 1 of None \<Rightarrow> [] | Some g \<Rightarrow> g))"

definition findall_at :: "rx \<Rightarrow> mstate \<Rightarrow> str list \<times> nat" where
  "findall_at r x =
     (case ends1 False r x of
        [] \<Rightarrow> ([], pos x)
      | y # ys \<Rightarrow>
          if pos x < pos y then ([findall_item r x y], pos y)
          else (case filter (\<lambda>z. pos x < pos z) ys of
                  [] \<Rightarrow> ([findall_item r x y], pos x)
                | z # zs \<Rightarrow> ([findall_item r x y, findall_item r x z], pos z)))"

text \<open>\<open>findall_scan r e i p s\<close>: the scan is at position \<open>i\<close>, the last match ended at
  \<open>e\<close>; positions before \<open>e\<close> start no match.\<close>

fun findall_scan :: "rx \<Rightarrow> nat \<Rightarrow> nat \<Rightarrow> nat option \<Rightarrow> str \<Rightarrow> str list" where
  "findall_scan r e i p [] = (if i < e then [] else fst (findall_at r (MState i p [] [])))"
| "findall_scan r e i p (c # cs) =
     (if i < e then findall_scan r e (Suc i) (Some c) cs
      else (case findall_at r (MState i p (c # cs) []) of
              (out, e') \<Rightarrow> out @ findall_scan r e' (Suc i) (Some c) cs))"

definition findall :: "rx \<Rightarrow> str \<Rightarrow> str list" where
  "findall r s = findall_scan r 0 0 None s"

section \<open>Content preservation engine (\<open>src/content_preservation.py\<close>)\<close>

datatype ContentSafetyLevel = SAFE_TO_MODIFY | CONTENT_CRITICAL | REQUIRES_REVIEW

text \<open>What the engine reads of a \<open>python-docx\<close> document: the paragraphs (text and
  style name, in document order) and the number of tables.\<close>

record docx_paragraph =
  para_text :: str
  style_name :: str

record document =
  paragraphs :: "docx_paragraph list"
  tables :: nat

record ContentFingerprint =
  full_text_hash :: str
  paragraph_hashes :: "str list"
  structure_hash :: str
  word_count :: nat
  character_count :: nat
  numerical_values :: "str list"
  timestamp :: nat

record ProhibitedZone =
  zone_type :: string
  start_paragraph :: nat
  end_paragraph :: nat
  content_hash :: str
  safety_level :: ContentSafetyLevel
  text_sample :: str

subsection \<open>The pattern table (\<open>self.prohibited_patterns\<close>)\<close>

definition word_of :: "string list \<Rightarrow> rx" where
  "word_of ws = seqs [Bnd, Grp 1 (alts (map lit ws)), Bnd]"

definition word_then_word :: "string list \<Rightarrow> string list \<Rightarrow> rx" where
  "word_then_word ws vs =
     seqs [Bnd, Grp 1 (alts (map lit ws)), Bnd, rx_star Dot, Bnd, Grp 2 (alts (map lit vs)), Bnd]"

definition D :: rx where "D = Sym [Dig]"

text \<open>The patterns of \<open>procedural_language\<close>, in the order of the source:
  \<^item> \<^verbatim>\<open>\b(step|procedure|process|method|instruction)\b\<close>
  \<^item> \<^verbatim>\<open>\b(shall|must|required|mandatory|prohibited)\b\<close>
  \<^item> \<^verbatim>\<open>\b(warning|caution|danger|notice|alert)\b\<close>
  \<^item> \<^verbatim>\<open>\b(follow|execute|perform|complete)\b.*\b(exactly|precisely)\b\<close>
\<close>

definition procedural_language :: "rx list" where
  "procedural_language =
   [ word_of [''step'', ''procedure'', ''process'', ''method'', ''instruction''],
     word_of [''shall'', ''must'', ''required'', ''mandatory'', ''prohibited''],
     word_of [''warning'', ''caution'', ''danger'', ''notice'', ''alert''],
     word_then_word [''follow'', ''execute'', ''perform'', ''complete''] [''exactly'', ''precisely''] ]"

text \<open>The patterns of \<open>technical_terms\<close>, in the order of the source:
  \<^item> \<^verbatim>\<open>\b[A-Z]{2,}\b\<close>
  \<^item> \<^verbatim>\<open>\b\w+[-_]\w+\b\<close>
  \<^item> \<^verbatim>\<open>\b\d+\.\d+\.\d+\b\<close>
  \<^item> \<^verbatim>\<open>\b[a-zA-Z]+\d+[a-zA-Z]*\b\<close>
  \<^item> \<^verbatim>\<open>\b(API|SDK|HTTP|REST|JSON|XML)\b\<close>
  \<^item> \<^verbatim>\<open>\b(OAuth|SSL|TLS|HTTPS)\b\<close>
\<close>

definition technical_terms :: "rx list" where
  "technical_terms =
   [ seqs [Bnd, Rep 2 None (Sym [rng CHR ''A'' CHR ''Z'']), Bnd],
     seqs [Bnd, rx_plus (Sym [Wrd]), Sym [ch CHR ''-'', ch CHR ''_''], rx_plus (Sym [Wrd]), Bnd],
     seqs [Bnd, rx_plus D, lit ''.'', rx_plus D, lit ''.'', rx_plus D, Bnd],
     seqs [Bnd, rx_plus (Sym [rng CHR ''a'' CHR ''z'', rng CHR ''A'' CHR ''Z'']), rx_plus D,
           rx_star (Sym [rng CHR ''a'' CHR ''z'', rng CHR ''A'' CHR ''Z'']), Bnd],
     word_of [''API'', ''SDK'', ''HTTP'', ''REST'', ''JSON'', ''XML''],
     word_of [''OAuth'', ''SSL'', ''TLS'', ''HTTPS''] ]"

text \<open>The patterns of \<open>numerical_values\<close>, in the order of the source:
  \<^item> \<^verbatim>\<open>\b\d+\.\d+\b\<close>
  \<^item> \<^verbatim>\<open>\$\d+(?:,\d{3})*(?:\.\d{2})?\b\<close>
  \<^item> \<^verbatim>\<open>\b\d+%\b\<close>
  \<^item> \<^verbatim>\<open>\b\d{1,3}(?:,\d{3})*\b\<close>
  \<^item> \<^verbatim>\<open>\b\d+\s*(PSI|V|A|Hz|..[CF])\b\<close>
  \<^item> \<^verbatim>\<open>\b\d+[-/]\d+[-/]\d{2,4}\b\<close>

  In the fifth pattern \<^verbatim>\<open>..\<close> stands for the two code points U+00C2 and U+00B0 that
  the source has there.
\<close>

definition numerical_patterns :: "rx list" where
  "numerical_patterns =
   [ seqs [Bnd, rx_plus D, lit ''.'', rx_plus D, Bnd],
     seqs [lit ''$'', rx_plus D, rx_star (Seq (lit '','') (Rep 3 (Some 3) D)),
           rx_opt (Seq (lit ''.'') (Rep 2 (Some 2) D)), Bnd],
     seqs [Bnd, rx_plus D, lit ''%'', Bnd],
     seqs [Bnd, Rep 1 (Some 3) D, rx_star (Seq (lit '','') (Rep 3 (Some 3) D)), Bnd],
     seqs [Bnd, rx_plus D, rx_star (Sym [Spc]),
           Grp 1 (alts [lit ''PSI'', lit ''V'', lit ''A'', lit ''Hz'',
                        seqs [Sym [Ch 194], Sym [Ch 176], Sym [ch CHR ''C'', ch CHR ''F'']]]), Bnd],
     seqs [Bnd, rx_plus D, Sym [ch CHR ''-'', ch CHR ''/''], rx_plus D,
           Sym [ch CHR ''-'', ch CHR ''/''], Rep 2 (Some 4) D, Bnd] ]"

text \<open>The patterns of \<open>regulatory_compliance\<close>, in the order of the source:
  \<^item> \<^verbatim>\<open>\b(FDA|ISO|OSHA|EPA|compliance|regulation)\b\<close>
  \<^item> \<^verbatim>\<open>\b(standard|specification|requirement|guideline)\b\<close>
  \<^item> \<^verbatim>\<open>\b(approved|certified|validated|authorized)\b\<close>
  \<^item> \<^verbatim>\<open>\b(CE|UL|FCC|RoHS)\b.*\b(certified|compliant)\b\<close>
\<close>

definition regulatory_compliance :: "rx list" where
  "regulatory_compliance =
   [ word_of [''FDA'', ''ISO'', ''OSHA'', ''EPA'', ''compliance'', ''regulation''],
     word_of [''standard'', ''specification'', ''requirement'', ''guideline''],
     word_of [''approved'', ''certified'', ''validated'', ''authorized''],
     word_then_word [''CE'', ''UL'', ''FCC'', ''RoHS''] [''certified'', ''compliant''] ]"

text \<open>The dictionary, in its insertion order, which is the order \<open>.items()\<close> iterates in.\<close>

definition prohibited_patterns :: "(string \<times> rx list) list" where
  "prohibited_patterns =
   [ (''procedural_language'', procedural_language),
     (''technical_terms'', technical_terms),
     (''numerical_values'', numerical_patterns),
     (''regulatory_compliance'', regulatory_compliance) ]"

subsection \<open>\<open>assess_paragraph_safety\<close>\<close>

text \<open>The two nested loops; each returns as soon as a pattern matches.\<close>

fun any_pattern :: "rx list \<Rightarrow> str \<Rightarrow> bool" where
  "any_pattern [] t = False"
| "any_pattern (p # ps) t = (if re_search True p t then True else any_pattern ps t)"

fun any_category :: "(string \<times> rx list) list \<Rightarrow> str \<Rightarrow> bool" where
  "any_category [] t = False"
| "any_category ((category, patterns) # cs) t =
     (if any_pattern patterns t then True else any_category cs t)"

definition assess_paragraph_safety :: "str \<Rightarrow> ContentSafetyLevel" where
  "assess_paragraph_safety t =
     (if strip t = [] then SAFE_TO_MODIFY
      else if any_category prohibited_patterns t then CONTENT_CRITICAL
      else if re_search False (rx_plus D) t then REQUIRES_REVIEW
      else SAFE_TO_MODIFY)"

subsection \<open>\<open>create_content_fingerprint\<close>\<close>

text \<open>
  \<open>Document(document_path)\<close> either raises or yields the document; the \<open>except\<close>
  clause logs and raises again, so the caller sees the error. The digest
  \<open>hashlib.sha256(x.encode('utf-8')).hexdigest()\<close> is the parameter \<open>H\<close>, and the clock
  reading \<open>datetime.now()\<close> is the parameter \<open>now\<close>.
\<close>

datatype error = DocumentError

fun digits10 :: "nat \<Rightarrow> str" where
  "digits10 n = (if n < 10 then [48 + n] else digits10 (n div 10) @ [48 + n mod 10])"

declare digits10.simps [simp del]

text \<open>\<open>json.dumps(structure_data, sort_keys=True)\<close>: the keys in alphabetical order.\<close>

definition structure_json :: "nat \<Rightarrow> nat \<Rightarrow> nat \<Rightarrow> str" where
  \<open>structure_json paragraph_count table_count heading_count =
     u ''{"heading_count": '' @ digits10 heading_count @
     u '', "paragraph_count": '' @ digits10 paragraph_count @
     u '', "table_count": '' @ digits10 table_count @ u ''}''\<close>

definition nonempty_paragraphs :: "document \<Rightarrow> docx_paragraph list" where
  "nonempty_paragraphs doc = filter (\<lambda>p. strip (para_text p) \<noteq> []) (paragraphs doc)"

definition full_text_of :: "document \<Rightarrow> str" where
  "full_text_of doc = join_nl (map para_text (nonempty_paragraphs doc))"

text \<open>The loop that extends \<open>numerical_values\<close> with the matches of each pattern.\<close>

fun extend_matches :: "rx list \<Rightarrow> str \<Rightarrow> str list \<Rightarrow> str list" where
  "extend_matches [] t acc = acc"
| "extend_matches (p # ps) t acc = extend_matches ps t (acc @ findall p t)"

text \<open>\<open>list(dict.fromkeys(xs))\<close>: the first occurrence of each item, in order.\<close>

fun fromkeys :: "str list \<Rightarrow> str list \<Rightarrow> str list" where
  "fromkeys seen [] = seen"
| "fromkeys seen (x # xs) = (if x \<in> set seen then fromkeys seen xs else fromkeys (seen @ [x]) xs)"

definition create_content_fingerprint ::
    "(str \<Rightarrow> str) \<Rightarrow> nat \<Rightarrow> error + document \<Rightarrow> error + ContentFingerprint" where
  "create_content_fingerprint H now opened =
     (case opened of
        Inl e \<Rightarrow> Inl e
      | Inr doc \<Rightarrow>
          let full_text = full_text_of doc;
              structure_data = structure_json
                (length (nonempty_paragraphs doc))
                (tables doc)
                (length (filter (\<lambda>p. startswith (style_name p) (u ''Heading'')) (paragraphs doc)))
          in Inr \<lparr> full_text_hash = H full_text,
                   paragraph_hashes = map (\<lambda>p. H (para_text p)) (nonempty_paragraphs doc),
                   structure_hash = H structure_data,
                   word_count = length (split_ws full_text),
                   character_count = length full_text,
                   numerical_values = fromkeys [] (extend_matches numerical_patterns full_text []),
                   timestamp = now \<rparr>)"

subsection \<open>\<open>identify_prohibited_zones\<close>\<close>

text \<open>
  The innermost loop runs over the patterns of one category and stops at the first that
  matches (\<open>break\<close>); the loop over the categories around it has no \<open>break\<close> and goes
  on with the next category.
\<close>

fun zone_of_patterns ::
    "(str \<Rightarrow> str) \<Rightarrow> string \<Rightarrow> nat \<Rightarrow> str \<Rightarrow> rx list \<Rightarrow> ProhibitedZone list" where
  "zone_of_patterns H zt i t [] = []"
| "zone_of_patterns H zt i t (p # ps) =
     (if re_search True p t
      then [\<lparr> zone_type = zt, start_paragraph = i, end_paragraph = i, content_hash = H t,
              safety_level = CONTENT_CRITICAL, text_sample = take 100 t \<rparr>]
      else zone_of_patterns H zt i t ps)"

fun zones_of_categories ::
    "(str \<Rightarrow> str) \<Rightarrow> nat \<Rightarrow> str \<Rightarrow> (string \<times> rx list) list \<Rightarrow> ProhibitedZone list" where
  "zones_of_categories H i t [] = []"
| "zones_of_categories H i t ((zt, patterns) # cs) =
     zone_of_patterns H zt i t patterns @ zones_of_categories H i t cs"

fun zones_of_paragraphs ::
    "(str \<Rightarrow> str) \<Rightarrow> nat \<Rightarrow> docx_paragraph list \<Rightarrow> ProhibitedZone list" where
  "zones_of_paragraphs H i [] = []"
| "zones_of_paragraphs H i (p # ps) =
     (if strip (para_text p) = [] then zones_of_paragraphs H (Suc i) ps
      else zones_of_categories H i (para_text p) prohibited_patterns
           @ zones_of_paragraphs H (Suc i) ps)"

definition identify_prohibited_zones ::
    "(str \<Rightarrow> str) \<Rightarrow> error + document \<Rightarrow> error + ProhibitedZone list" where
  "identify_prohibited_zones H opened =
     (case opened of
        Inl e \<Rightarrow> Inl e
      | Inr doc \<Rightarrow> Inr (zones_of_paragraphs H 0 (paragraphs doc)))"

subsection \<open>\<open>validate_content_integrity\<close>\<close>

record IntegrityReport =
  content_hash_match :: bool
  word_count_match :: bool
  character_count_match :: bool
  numerical_values_preserved :: bool
  missing_values :: "str list"
  overall_valid :: bool

text \<open>The loop over the fingerprinted values; the pair is
  \<open>(numerical_values_preserved, missing_values)\<close>. No step of the function raises on
  values of these types, so the \<open>except\<close> branch, which would return a report with an
  error message, is never taken.\<close>

fun check_values :: "str list \<Rightarrow> str \<Rightarrow> bool \<times> str list \<Rightarrow> bool \<times> str list" where
  "check_values [] processed st = st"
| "check_values (v # vs) processed (ok, missing) =
     (if \<not> contains processed v then check_values vs processed (False, missing @ [v])
      else check_values vs processed (ok, missing))"

definition validate_content_integrity ::
    "(str \<Rightarrow> str) \<Rightarrow> ContentFingerprint \<Rightarrow> str \<Rightarrow> IntegrityReport" where
  "validate_content_integrity H original_fingerprint processed_content =
     (let processed_hash = H processed_content;
          hash_ok = (processed_hash = full_text_hash original_fingerprint);
          words_ok = (length (split_ws processed_content) = word_count original_fingerprint);
          chars_ok = (length processed_content = character_count original_fingerprint);
          (values_ok, missing) =
             check_values (numerical_values original_fingerprint) processed_content (True, [])
      in \<lparr> content_hash_match = hash_ok,
           word_count_match = words_ok,
           character_count_match = chars_ok,
           numerical_values_preserved = values_ok,
           missing_values = missing,
           overall_valid = (hash_ok \<and> words_ok \<and> chars_ok \<and> values_ok) \<rparr>)"

section \<open>Multi-stage formatter (\<open>multi_stage_formatter.py\<close>)\<close>

text \<open>
  Each stage walks the paragraphs once. For one paragraph the \<open>if\<close>/\<open>elif\<close> chain
  either sets \<open>should_filter\<close> with a reason or leaves the paragraph to be kept;
  \<open>stage1_reason\<close> and \<open>stage2_reason\<close> are that chain (\<open>None\<close>: keep). The argument is
  \<open>text = para.text.strip()\<close>. A stage returns the kept paragraphs and the entries it
  appends to \<open>debug_info\<close>.

  Stage 1 patterns: \<^verbatim>\<open>\.{5,}\<close> (search), \<^verbatim>\<open>^[A-Z]+-\d+$\<close> (match),
  \<^verbatim>\<open>^\d+\.\d+\s+.*\.{3,}\s*\d+\<close> (search).
  Stage 2 patterns, all searched in the lower-cased text: \<^verbatim>\<open>page \d+\<close>, \<^verbatim>\<open>revision:\<close>,
  \<^verbatim>\<open>report #\<close>, \<^verbatim>\<open>date:?\s*\d{2}-\d{2}-\d{2}\<close>.
\<close>

definition stage1_reason :: "str \<Rightarrow> string option" where
  "stage1_reason t =
     (let text_lower = lower t in
      if length t < 3 then Some ''too short''
      else if t = u ''TABLE OF CONTENTS'' then Some ''table of contents''
      else if contains text_lower (u ''table of contents'') then Some ''table of contents variant''
      else if t = u ''MASTER TABLE OF CONTENTS'' then Some ''master table of contents''
      else if contains text_lower (u ''master table'') then Some ''master table variant''
      else if contains text_lower (u ''record of revisions'') then Some ''record of revisions''
      else if contains text_lower (u ''revision highlights'') then Some ''revision highlights''
      else if contains text_lower (u ''list of effective sections'') then Some ''list of effective sections''
      else if contains text_lower (u ''list of effective pages'') then Some ''list of effective pages''
      else if re_search False (Rep 5 None (lit ''.'')) t then Some ''dotted lines (TOC)''
      else if re_match False (seqs [Bol, rx_plus (Sym [rng CHR ''A'' CHR ''Z'']), lit ''-'', rx_plus D, Eol]) t
        then Some ''page reference''
      else if re_search False (seqs [Bol, rx_plus D, lit ''.'', rx_plus D, rx_plus (Sym [Spc]), rx_star Dot,
                                     Rep 3 None (lit ''.''), rx_star (Sym [Spc]), rx_plus D]) t
        then Some ''TOC entry with page numbers''
      else None)"

definition stage2_reason :: "str \<Rightarrow> string option" where
  "stage2_reason t =
     (let text_lower = lower t in
      if t = u ''INTENTIONALLY LEFT BLANK'' then Some ''intentionally left blank (exact)''
      else if contains text_lower (u ''intentionally left blank'') then Some ''intentionally left blank (variant)''
      else if contains text_lower (u ''this page intentionally left blank'')
        then Some ''this page intentionally left blank''
      else if re_search False (seqs [lit ''page '', rx_plus D]) text_lower then Some ''page number''
      else if re_search False (lit ''revision:'') text_lower then Some ''revision info''
      else if re_search False (lit ''report #'') text_lower then Some ''report number''
      else if contains text_lower (u ''oae.'') then Some ''oae reference''
      else if contains text_lower (u ''company name'') \<and> length t < 50 then Some ''company header''
      else if t = u ''FLIGHT ATTENDANT POLICIES & PROCEDURES HANDBOOK'' then Some ''document title''
      else if contains text_lower (u ''policies & procedures handbook'') \<and> length t < 100
        then Some ''handbook title''
      else if contains text_lower (u ''flight crew training manual'') \<and> length t < 100
        then Some ''manual title''
      else if re_search False (seqs [lit ''date'', rx_opt (lit '':''), rx_star (Sym [Spc]), Rep 2 (Some 2) D,
                                     lit ''-'', Rep 2 (Some 2) D, lit ''-'', Rep 2 (Some 2) D]) text_lower
        then Some ''date stamp''
      else None)"

text \<open>The debug entry \<^verbatim>\<open>f"'{text}' ({reason})"\<close>.\<close>

definition filter_entry :: "str \<Rightarrow> string \<Rightarrow> str" where
  "filter_entry t reason = [39] @ t @ [39] @ u '' ('' @ u reason @ u '')''"

text \<open>The loop of a filter stage: the state is \<open>(kept_paragraphs, debug entries)\<close>.\<close>

fun filter_loop ::
    "(str \<Rightarrow> string option) \<Rightarrow> docx_paragraph list \<Rightarrow> docx_paragraph list \<times> str list
       \<Rightarrow> docx_paragraph list \<times> str list" where
  "filter_loop reason_of [] st = st"
| "filter_loop reason_of (para # ps) (kept, dbg) =
     (let t = strip (para_text para) in
      case reason_of t of
        Some reason \<Rightarrow> filter_loop reason_of ps (kept, dbg @ [filter_entry t reason])
      | None \<Rightarrow> filter_loop reason_of ps (kept @ [para], dbg))"

definition stage1_navigation_filter :: "docx_paragraph list \<Rightarrow> docx_paragraph list \<times> str list" where
  "stage1_navigation_filter ps = filter_loop stage1_reason ps ([], [])"

definition stage2_metadata_filter :: "docx_paragraph list \<Rightarrow> docx_paragraph list \<times> str list" where
  "stage2_metadata_filter ps = filter_loop stage2_reason ps ([], [])"

subsection \<open>Stage 3\<close>

text \<open>
  The list patterns of \<open>_classify_paragraph\<close>, tried with \<open>re.match\<close> in this order:
  \<^item> \<^verbatim>\<open>^[.\-\*...]\s+\<close>, where the class holds, in this order, the code points U+2022,
    \<open>-\<close>, \<open>*\<close>, U+25E6, U+25BA and U+25CB
  \<^item> \<^verbatim>\<open>^\d+\.\s+\<close>
  \<^item> \<^verbatim>\<open>^[a-z]\)\s+\<close>
  \<^item> \<^verbatim>\<open>^[A-Z]\)\s+\<close>
  \<^item> \<^verbatim>\<open>^\([a-z]\)\s+\<close>
  \<^item> \<^verbatim>\<open>^\([A-Z]\)\s+\<close>
\<close>

definition list_patterns :: "rx list" where
  "list_patterns =
   [ seqs [Bol, Sym [Ch 8226, ch CHR ''-'', ch CHR ''*'', Ch 9702, Ch 9658, Ch 9675], rx_plus (Sym [Spc])],
     seqs [Bol, rx_plus D, lit ''.'', rx_plus (Sym [Spc])],
     seqs [Bol, Sym [rng CHR ''a'' CHR ''z''], lit '')'', rx_plus (Sym [Spc])],
     seqs [Bol, Sym [rng CHR ''A'' CHR ''Z''], lit '')'', rx_plus (Sym [Spc])],
     seqs [Bol, lit ''('', Sym [rng CHR ''a'' CHR ''z''], lit '')'', rx_plus (Sym [Spc])],
     seqs [Bol, lit ''('', Sym [rng CHR ''A'' CHR ''Z''], lit '')'', rx_plus (Sym [Spc])] ]"

definition imperative_starts :: "string list" where
  "imperative_starts =
   [ ''read,'', ''understand'', ''comply'', ''report'', ''maintain'', ''avoid'',
     ''use'', ''respect'', ''promote'', ''cooperate'', ''ensure'', ''follow'',
     ''wear'', ''keep'', ''replace'', ''check'', ''verify'', ''submit'' ]"

definition modal_phrases :: "string list" where
  "modal_phrases =
   [ ''must '', ''shall '', ''will '', ''should '', ''are required to'', ''are responsible for'' ]"

text \<open>The heading block: only for a short text that does not end with a period.\<close>

definition heading_rule :: "str \<Rightarrow> string option" where
  "heading_rule text_clean =
     (if length text_clean < 100 \<and> \<not> endswith text_clean (u ''.'') then
        (if isupper text_clean then
           (if length text_clean < 30 then Some ''Heading 2'' else Some ''Heading 1'')
         else if istitle text_clean then Some ''Heading 3''
         else None)
      else None)"

definition classify_paragraph :: "str \<Rightarrow> string" where
  "classify_paragraph t =
     (let text_clean = strip t; text_lower = lower text_clean in
      if list_ex (\<lambda>pattern. re_match False pattern text_clean) list_patterns then ''List Paragraph''
      else if list_ex (\<lambda>verb. startswith text_lower (u verb)) imperative_starts then ''List Paragraph''
      else if list_ex (\<lambda>phrase. contains text_lower (u phrase)) modal_phrases then ''List Paragraph''
      else (case heading_rule text_clean of
              Some style \<Rightarrow> style
            | None \<Rightarrow> if startswith text_clean (u ''NOTE:'') then ''Normal'' else ''Body Text''))"

record classified =
  c_text :: str
  c_style :: string
  original_para :: docx_paragraph

text \<open>The debug entry \<^verbatim>\<open>f"'{text[:50]}...' -> {style}"\<close>.\<close>

definition classify_entry :: "str \<Rightarrow> string \<Rightarrow> str" where
  "classify_entry t style = [39] @ take 50 t @ u ''...'' @ [39] @ u '' -> '' @ u style"

fun classify_loop ::
    "docx_paragraph list \<Rightarrow> classified list \<times> str list \<Rightarrow> classified list \<times> str list" where
  "classify_loop [] st = st"
| "classify_loop (para # ps) (out, dbg) =
     (let t = strip (para_text para); style = classify_paragraph t in
      classify_loop ps
        (out @ [\<lparr> c_text = t, c_style = style, original_para = para \<rparr>],
         dbg @ [classify_entry t style]))"

definition stage3_classify_content :: "docx_paragraph list \<Rightarrow> classified list \<times> str list" where
  "stage3_classify_content ps = classify_loop ps ([], [])"

section \<open>Safe formatting engine (\<open>legacy/src/safe_formatting.py\<close>)\<close>

record SafeFormattingRule =
  element_type :: str
  css_properties :: "(str \<times> str) list"
  conditions :: "str list"
  rule_safety_level :: ContentSafetyLevel

definition visual_only :: "str list" where
  "visual_only = map u
   [ ''font-family'', ''font-size'', ''font-weight'', ''font-style'',
     ''color'', ''background-color'', ''text-align'', ''line-height'',
     ''margin'', ''padding'', ''border'', ''border-collapse'',
     ''width'', ''height'', ''display'', ''float'', ''clear'' ]"

definition layout_only :: "str list" where
  "layout_only = map u
   [ ''margin-top'', ''margin-bottom'', ''margin-left'', ''margin-right'',
     ''padding-top'', ''padding-bottom'', ''padding-left'', ''padding-right'',
     ''text-indent'', ''vertical-align'', ''page-break-before'', ''page-break-after'' ]"

definition prohibited_properties :: "str list" where
  "prohibited_properties = map u
   [ ''content'', ''counter-increment'', ''counter-reset'', ''quotes'', ''text-transform'' ]"



subsection \<open>\<open>_generate_safe_css\<close>\<close>

text \<open>The fixed first block of the style sheet (reset and base styles); the literal starts with a line break.\<close>

definition css_base :: str where
  \<open>css_base = join_nl
   [ [],
     u ''body {'',
     u ''    font-family: Arial, sans-serif;'',
     u ''    line-height: 1.6;'',
     u ''    margin: 40px;'',
     u ''    max-width: 800px;'',
     u ''    color: #333;'',
     u ''}'',
     [],
     u ''.document-title {'',
     u ''    border-bottom: 2px solid #000080;'',
     u ''    padding-bottom: 10px;'',
     u ''    margin-bottom: 20px;'',
     u ''}'' ]\<close>

text \<open>The fixed last block (safety-specific styling). The two \<open>content\<close> strings hold code points above 127, written here by number.\<close>

definition css_safety :: str where
  \<open>css_safety = join_nl
   [ [],
     u ''.preserved {'',
     u ''    /* Original formatting preserved for safety-critical content */'',
     u ''    background-color: #fff9c4 !important;'',
     u ''    border-left: 4px solid #f0ad4e !important;'',
     u ''    padding: 8px !important;'',
     u ''    margin: 4px 0 !important;'',
     u ''    font-family: inherit !important;'',
     u ''    font-size: inherit !important;'',
     u ''}'',
     [],
     u ''.requires-review {'',
     u ''    /* Content that requires human review */'',
     u ''    background-color: #e6f3ff !important;'',
     u ''    border-left: 4px solid #007bff !important;'',
     u ''    padding: 4px !important;'',
     u ''}'',
     [],
     u ''.preserved::before {'',
     u ''    content: "'' @ [226, 353, 160, 239, 184] @ u '' PRESERVED: ";'',
     u ''    font-weight: bold;'',
     u ''    color: #8a6d3b;'',
     u ''}'',
     [],
     u ''.requires-review::before {'',
     u ''    content: "'' @ [240, 376, 8216, 239, 184] @ u '' REVIEW: ";'',
     u ''    font-weight: bold;'',
     u ''    color: #0056b3;'',
     u ''}'',
     [],
     u ''.document-metadata {'',
     u ''    margin-top: 40px;'',
     u ''    padding-top: 20px;'',
     u ''    border-top: 1px solid #ddd;'',
     u ''    color: #666;'',
     u ''    font-size: 11px;'',
     u ''}'',
     [],
     u ''/* Print styles */'',
     u ''@media print {'',
     u ''    .preserved, .requires-review {'',
     u ''        background-color: white !important;'',
     u ''        border-left: 2px solid #000 !important;'',
     u ''    }'',
     u ''    '',
     u ''    .preserved::before, .requires-review::before {'',
     u ''        content: "";'',
     u ''    }'',
     u ''}'' ]\<close>

text \<open>\<open>'\n\n'.join(css_rules)\<close>.\<close>

fun join_nlnl :: "str list \<Rightarrow> str" where
  "join_nlnl [] = []"
| "join_nlnl [x] = x"
| "join_nlnl (x # y # ys) = x @ [10, 10] @ join_nlnl (y # ys)"

text \<open>The inner loop: one line \<^verbatim>\<open>f'  {prop}: {value};'\<close> for each property on the allow-list.\<close>

fun property_lines :: "(str \<times> str) list \<Rightarrow> str list" where
  "property_lines [] = []"
| "property_lines ((prop, v) # ps) =
     (if prop \<in> set (visual_only @ layout_only)
      then (u ''  '' @ prop @ u '': '' @ v @ u '';'') # property_lines ps
      else property_lines ps)"

text \<open>The outer loop over \<open>style_guide.items()\<close>: a rule block for each entry that has at
  least one line.\<close>

fun rule_blocks :: "(str \<times> SafeFormattingRule) list \<Rightarrow> str list" where
  "rule_blocks [] = []"
| "rule_blocks ((et, rule) # rs) =
     (let properties = property_lines (css_properties rule) in
      if properties \<noteq> []
      then (et @ u '' {'' @ [10] @ join_nl properties @ [10] @ u ''}'') # rule_blocks rs
      else rule_blocks rs)"

definition generate_safe_css :: "(str \<times> SafeFormattingRule) list \<Rightarrow> str" where
  "generate_safe_css style_guide = join_nlnl ([css_base] @ rule_blocks style_guide @ [css_safety])"

definition mk_rule :: "string \<Rightarrow> (string \<times> string) list \<Rightarrow> string \<Rightarrow> str \<times> SafeFormattingRule" where
  "mk_rule et props cond =
     (u et, \<lparr> element_type = u et, css_properties = map (\<lambda>(k, v). (u k, u v)) props,
              conditions = [u cond], rule_safety_level = SAFE_TO_MODIFY \<rparr>)"

definition default_style_guide :: "(str \<times> SafeFormattingRule) list" where
  "default_style_guide =
   [ mk_rule ''h1'' [(''font-family'', ''Arial, sans-serif''), (''font-size'', ''18px''),
                     (''font-weight'', ''bold''), (''color'', ''#000080''),
                     (''margin-bottom'', ''12px''), (''margin-top'', ''16px'')] ''is_main_heading'',
     mk_rule ''h2'' [(''font-family'', ''Arial, sans-serif''), (''font-size'', ''14px''),
                     (''font-weight'', ''bold''), (''color'', ''#333333''),
                     (''margin-bottom'', ''8px''), (''margin-top'', ''12px'')] ''is_section_heading'',
     mk_rule ''h3'' [(''font-family'', ''Arial, sans-serif''), (''font-size'', ''13px''),
                     (''font-weight'', ''bold''), (''color'', ''#666666''),
                     (''margin-bottom'', ''6px''), (''margin-top'', ''10px'')] ''is_subsection_heading'',
     mk_rule ''p'' [(''font-family'', ''Arial, sans-serif''), (''font-size'', ''12px''),
                    (''line-height'', ''1.15''), (''margin-bottom'', ''6px'')] ''is_body_text'',
     mk_rule ''table'' [(''border-collapse'', ''collapse''), (''width'', ''100%''),
                        (''font-family'', ''Arial, sans-serif''), (''font-size'', ''12px''),
                        (''margin-bottom'', ''12px'')] ''is_data_table'',
     mk_rule ''td'' [(''border'', ''1px solid #ddd''), (''padding'', ''6px''),
                     (''text-align'', ''left'')] ''is_table_cell'',
     mk_rule ''th'' [(''border'', ''1px solid #ddd''), (''padding'', ''6px''),
                     (''background-color'', ''#f2f2f2''), (''font-weight'', ''bold''),
                     (''text-align'', ''left'')] ''is_table_header'' ]"

section \<open>Example inputs\<close>

text \<open>A document whose only paragraph is the text of the third end-to-end scenario.\<close>

definition doc_scenario3 :: document where
  "doc_scenario3 =
     \<lparr> paragraphs = [\<lparr> para_text = u ''Total cost is $15,000.00 with 15% discount.'',
                        style_name = u ''Normal'' \<rparr>],
       tables = 0 \<rparr>"

text \<open>A document whose only paragraph is \<open>Step 1\<close>.\<close>

definition doc_step1 :: document where
  "doc_step1 = \<lparr> paragraphs = [\<lparr> para_text = u ''Step 1'', style_name = u ''Normal'' \<rparr>], tables = 0 \<rparr>"


text \<open>Three paragraphs: the blank-page notice in two spellings, and a line of content.\<close>

definition paras_blank :: "docx_paragraph list" where
  "paras_blank =
     [ \<lparr> para_text = u ''INTENTIONALLY LEFT BLANK'', style_name = u ''Normal'' \<rparr>,
       \<lparr> para_text = u ''  This page intentionally left blank.  '', style_name = u ''Normal'' \<rparr>,
       \<lparr> para_text = u '' General information '', style_name = u ''Normal'' \<rparr> ]"

section \<open>Heading tiers\<close>


section \<open>Properties\<close>

text \<open>
  A matcher state is well formed for a subject \<open>s\<close> when it sits at a position of \<open>s\<close>
  (what is still to read is the rest of \<open>s\<close> from there) and every captured text
  occurs in \<open>s\<close>.
\<close>

definition wf_state :: "str \<Rightarrow> mstate \<Rightarrow> bool" where
  "wf_state s x \<longleftrightarrow>
     (\<exists>pre. s = pre @ rest x \<and> pos x = length pre) \<and> (\<forall>(k, g) \<in> set (caps x). sublist g s)"

subsection \<open>Strings\<close>

lemma startswith_iff: "startswith s p \<longleftrightarrow> prefix p s"
  by (induction s p rule: startswith.induct) auto

lemma contains_iff_sublist: "contains s p \<longleftrightarrow> sublist p s"
proof (induction s)
  case Nil
  then show ?case by auto
next
  case (Cons c cs)
  show ?case
    by (simp add: Cons.IH startswith_iff sublist_Cons_right del: startswith.simps)
qed


lemma strip_decomp:
  "\<exists>a b. t = a @ strip t @ b \<and> list_all isspace_cp a \<and> list_all isspace_cp b"
proof -
  let ?d = "dropWhile isspace_cp t"
  have 1: "t = takeWhile isspace_cp t @ ?d" by simp
  have 2: "rev ?d = takeWhile isspace_cp (rev ?d) @ dropWhile isspace_cp (rev ?d)" by simp
  have "?d = rev (dropWhile isspace_cp (rev ?d)) @ rev (takeWhile isspace_cp (rev ?d))"
    by (metis 2 rev_append rev_rev_ident)
  then have 3: "?d = strip t @ rev (takeWhile isspace_cp (rev ?d))" by (simp add: strip_def)
  have 4: "list_all isspace_cp (takeWhile isspace_cp t)"
    by (simp add: list_all_iff) (meson set_takeWhileD)
  have 5: "list_all isspace_cp (rev (takeWhile isspace_cp (rev ?d)))"
    by (simp add: list_all_iff) (meson set_takeWhileD)
  from 1 3 4 5 show ?thesis by metis
qed


subsection \<open>The matcher stays inside the subject\<close>

lemma wf_step_char: "wf_state s x \<Longrightarrow> wf_state s (step_char x) \<and> pos x \<le> pos (step_char x)"
proof (cases "rest x")
  case Nil
  assume "wf_state s x"
  with Nil show ?thesis by (simp add: step_char_def)
next
  case (Cons c cs)
  assume "wf_state s x"
  then obtain pre where pre: "s = pre @ rest x" "pos x = length pre"
      and caps: "\<forall>(k, g) \<in> set (caps x). sublist g s"
    by (auto simp: wf_state_def)
  have sc: "step_char x = MState (Suc (pos x)) (Some c) cs (caps x)"
    by (simp add: step_char_def Cons)
  from pre Cons have "s = (pre @ [c]) @ cs \<and> Suc (pos x) = length (pre @ [c])" by simp
  then have "\<exists>pre'. s = pre' @ cs \<and> Suc (pos x) = length pre'" by (rule exI)
  with caps show ?thesis by (simp add: wf_state_def sc)
qed

lemma wf_close_group:
  assumes "wf_state s x" "wf_state s y"
  shows "wf_state s (close_group k x y)"
proof -
  from assms(1) obtain pre where pre: "s = pre @ rest x" by (auto simp: wf_state_def)
  have "rest x = take (pos y - pos x) (rest x) @ drop (pos y - pos x) (rest x)" by simp
  with pre have "s = pre @ take (pos y - pos x) (rest x) @ drop (pos y - pos x) (rest x)" by simp
  then have "sublist (take (pos y - pos x) (rest x)) s" unfolding sublist_def by blast
  with assms(2) show ?thesis by (auto simp: wf_state_def close_group_def)
qed

lemma rep_one_wf:
  assumes f: "\<And>x y. wf_state s x \<Longrightarrow> y \<in> set (f x) \<Longrightarrow> wf_state s y \<and> pos x \<le> pos y"
  shows "wf_state s x \<Longrightarrow> y \<in> set (rep_one f n lo hi x) \<Longrightarrow> wf_state s y \<and> pos x \<le> pos y"
proof (induction n arbitrary: lo hi x)
  case 0
  then show ?case by (auto split: if_splits)
next
  case (Suc n)
  show ?case
  proof (cases "y = x")
    case True
    with Suc.prems show ?thesis by simp
  next
    case False
    with Suc.prems(2) obtain z where z: "z \<in> set (f x)" "pos x < pos z"
        and y: "y \<in> set (rep_one f n (lo - 1) (dec hi) z)"
      by (auto split: if_splits)
    from f [OF Suc.prems(1) z(1)] have "wf_state s z" by simp
    from Suc.IH [OF this y] z(2) show ?thesis by simp
  qed
qed

lemma ends1_wf:
  "wf_state s x \<Longrightarrow> y \<in> set (ends1 ic r x) \<Longrightarrow> wf_state s y \<and> pos x \<le> pos y"
proof (induction r arbitrary: x y)
  case Eps
  then show ?case by simp
next
  case (Sym cl)
  from Sym.prems(2) have "y = step_char x"
    by (cases "rest x") (simp_all split: if_splits)
  with wf_step_char [OF Sym.prems(1)] show ?case by simp
next
  case Dot
  from Dot.prems(2) have "y = step_char x"
    by (cases "rest x") (simp_all split: if_splits)
  with wf_step_char [OF Dot.prems(1)] show ?case by simp
next
  case Bnd
  then show ?case by (simp split: if_splits)
next
  case Bol
  then show ?case by (simp split: if_splits)
next
  case Eol
  from Eol.prems(2) have "y = x" by (simp split: if_splits)
  with Eol.prems(1) show ?case by simp
next
  case (Seq a b)
  from Seq.prems(2) obtain z where z: "z \<in> set (ends1 ic a x)" and y: "y \<in> set (ends1 ic b z)"
    by auto
  from Seq.IH(1) [OF Seq.prems(1) z] have 1: "wf_state s z" "pos x \<le> pos z" by simp_all
  from Seq.IH(2) [OF 1(1) y] 1(2) show ?case by simp
next
  case (Alt a b)
  from Alt.prems(2) have "y \<in> set (ends1 ic a x) \<or> y \<in> set (ends1 ic b x)" by simp
  with Alt.IH Alt.prems(1) show ?case by blast
next
  case (Rep lo hi r)
  from Rep.prems(2) have "y \<in> set (rep_one (ends1 ic r) (length (rest x)) lo hi x)" by simp
  with rep_one_wf [where f = "ends1 ic r" and s = s, OF Rep.IH Rep.prems(1)] show ?case by blast
next
  case (Grp k r)
  from Grp.prems(2) obtain z where z: "z \<in> set (ends1 ic r x)" and y: "y = close_group k x z"
    by auto
  from Grp.IH [OF Grp.prems(1) z] have 1: "wf_state s z" "pos x \<le> pos z" by simp_all
  from wf_close_group [OF Grp.prems(1) 1(1)] 1(2) y show ?case by (simp add: close_group_def)
qed


subsection \<open>The bound on the iterations of a repetition loses nothing\<close>

text \<open>
  \<open>rep_one\<close> is given the number of characters left as a bound on its iterations. A
  larger bound gives the same end states, so the bound cuts no match short.
\<close>

lemma wf_state_length: "wf_state s x \<Longrightarrow> length s = pos x + length (rest x)"
  by (auto simp: wf_state_def)

lemma rep_one_fuel:
  assumes f: "\<And>x y. wf_state s x \<Longrightarrow> y \<in> set (f x) \<Longrightarrow> wf_state s y \<and> pos x \<le> pos y"
  shows "wf_state s x \<Longrightarrow> length (rest x) \<le> n \<Longrightarrow> (case hi of None \<Rightarrow> True | Some h \<Rightarrow> lo \<le> h)
         \<Longrightarrow> rep_one f n lo hi x = rep_one f (length (rest x)) lo hi x"
proof (induction "length (rest x)" arbitrary: x n lo hi rule: less_induct)
  case less
  let ?ys = "filter (\<lambda>y. pos x < pos y) (f x)"
  have shorter: "wf_state s y \<and> length (rest y) < length (rest x)" if "y \<in> set ?ys" for y
  proof -
    from that have y: "y \<in> set (f x)" "pos x < pos y" by simp_all
    from f [OF less.prems(1) y(1)] have wy: "wf_state s y" by simp
    from wf_state_length [OF wy] wf_state_length [OF less.prems(1)] y(2) wy show ?thesis by simp
  qed
  have bounds: "case dec hi of None \<Rightarrow> True | Some h \<Rightarrow> lo - 1 \<le> h"
    using less.prems(3) by (cases hi) auto
  have inner: "map (rep_one f k (lo - 1) (dec hi)) ?ys
               = map (\<lambda>y. rep_one f (length (rest y)) (lo - 1) (dec hi) y) ?ys"
    if "length (rest x) \<le> Suc k" for k
  proof (rule map_cong [OF refl])
    fix y assume y: "y \<in> set ?ys"
    from shorter [OF y] that have "length (rest y) \<le> k" by simp
    with less.hyps [of y k "lo - 1" "dec hi"] shorter [OF y] bounds
    show "rep_one f k (lo - 1) (dec hi) y = rep_one f (length (rest y)) (lo - 1) (dec hi) y"
      by simp
  qed
  show ?case
  proof (cases n)
    case 0
    with less.prems(2) show ?thesis by simp
  next
    case (Suc n')
    show ?thesis
    proof (cases "length (rest x)")
      case 0
      have "?ys = []"
      proof (rule ccontr)
        assume "?ys \<noteq> []"
        then obtain y where "y \<in> set ?ys" by (cases ?ys) auto
        from shorter [OF this] 0 show False by simp
      qed
      with 0 Suc less.prems(3) show ?thesis by (cases hi) auto
    next
      case (Suc k)
      from inner [of n'] less.prems(2) \<open>n = Suc n'\<close> have 1:
        "map (rep_one f n' (lo - 1) (dec hi)) ?ys
         = map (\<lambda>y. rep_one f (length (rest y)) (lo - 1) (dec hi) y) ?ys" by simp
      from inner [of k] Suc have 2:
        "map (rep_one f k (lo - 1) (dec hi)) ?ys
         = map (\<lambda>y. rep_one f (length (rest y)) (lo - 1) (dec hi) y) ?ys" by simp
      show ?thesis unfolding \<open>n = Suc n'\<close> Suc by (simp only: rep_one.simps 1 2)
    qed
  qed
qed

lemma ends1_rep_fuel:
  assumes "wf_state s x" "length (rest x) \<le> n" "case hi of None \<Rightarrow> True | Some h \<Rightarrow> lo \<le> h"
  shows "rep_one (ends1 ic r) n lo hi x = ends1 ic (Rep lo hi r) x"
  using rep_one_fuel [where f = "ends1 ic r" and s = s, OF ends1_wf assms] by simp

subsection \<open>What \<open>findall\<close> returns occurs in the subject\<close>

lemma findall_item_sublist:
  assumes "wf_state s x" "y \<in> set (ends1 ic r x)"
  shows "sublist (findall_item r x y) s"
proof -
  from ends1_wf [OF assms] have wy: "wf_state s y" by simp
  from assms(1) obtain pre where pre: "s = pre @ rest x" by (auto simp: wf_state_def)
  have "rest x = take (pos y - pos x) (rest x) @ drop (pos y - pos x) (rest x)" by simp
  with pre have "s = pre @ take (pos y - pos x) (rest x) @ drop (pos y - pos x) (rest x)" by simp
  then have 1: "sublist (take (pos y - pos x) (rest x)) s" unfolding sublist_def by blast
  have 2: "sublist g s" if "map_of (caps y) 1 = Some g" for g
  proof -
    from that have "(1, g) \<in> set (caps y)" by (rule map_of_SomeD)
    with wy show ?thesis by (auto simp: wf_state_def)
  qed
  show ?thesis
    unfolding findall_item_def using 1 2 by (simp split: option.splits)
qed

lemma findall_at_sublist:
  assumes "wf_state s x" "v \<in> set (fst (findall_at r x))"
  shows "sublist v s"
proof (cases "ends1 False r x")
  case Nil
  with assms(2) show ?thesis by (simp add: findall_at_def)
next
  case (Cons y ys)
  then have y: "y \<in> set (ends1 False r x)" by simp
  have zs: "z \<in> set (ends1 False r x)" if "filter (\<lambda>z. pos x < pos z) ys = z # zs" for z zs
  proof -
    from that have "z \<in> set (filter (\<lambda>z. pos x < pos z) ys)" by simp
    with Cons show ?thesis by simp
  qed
  from assms(2) Cons have
    "v = findall_item r x y \<or> (\<exists>z zs. filter (\<lambda>z. pos x < pos z) ys = z # zs \<and> v = findall_item r x z)"
    by (auto simp: findall_at_def split: if_splits list.splits)
  with findall_item_sublist [OF assms(1)] y zs show ?thesis by blast
qed

lemma findall_scan_sublist:
  "s = pre @ t \<Longrightarrow> i = length pre \<Longrightarrow> v \<in> set (findall_scan r e i p t) \<Longrightarrow> sublist v s"
proof (induction t arbitrary: pre e i p)
  case Nil
  then have "wf_state s (MState i p [] [])" by (simp add: wf_state_def)
  with Nil.prems(3) findall_at_sublist show ?case by (auto split: if_splits)
next
  case (Cons c cs)
  have wf: "wf_state s (MState i p (c # cs) [])" using Cons.prems by (simp add: wf_state_def)
  have step: "sublist v s" if "v \<in> set (findall_scan r e' (Suc i) (Some c) cs)" for e'
    using Cons.IH [of "pre @ [c]" "Suc i" e' "Some c"] Cons.prems(1,2) that by simp
  show ?case
  proof (cases "i < e")
    case True
    with Cons.prems(3) step show ?thesis by simp
  next
    case False
    obtain out e' where fa: "findall_at r (MState i p (c # cs) []) = (out, e')"
      by (cases "findall_at r (MState i p (c # cs) [])")
    with False Cons.prems(3) have "v \<in> set out \<or> v \<in> set (findall_scan r e' (Suc i) (Some c) cs)"
      by simp
    then show ?thesis
    proof
      assume "v \<in> set out"
      with fa findall_at_sublist [OF wf, of v r] show ?thesis by simp
    next
      assume "v \<in> set (findall_scan r e' (Suc i) (Some c) cs)"
      then show ?thesis by (rule step)
    qed
  qed
qed

lemma findall_sublist: "v \<in> set (findall r s) \<Longrightarrow> sublist v s"
  unfolding findall_def using findall_scan_sublist [of s "[]" s 0 v r 0 None] by simp

lemma extend_matches_set:
  "set (extend_matches ps t acc) = set acc \<union> (\<Union>p \<in> set ps. set (findall p t))"
  by (induction ps arbitrary: acc) auto

lemma fromkeys_set: "set (fromkeys seen xs) = set seen \<union> set xs"
  by (induction xs arbitrary: seen) auto

lemma check_values_eq:
  "check_values vs t (ok, missing) =
     (ok \<and> list_all (contains t) vs, missing @ filter (\<lambda>v. \<not> contains t v) vs)"
  by (induction vs arbitrary: ok missing) auto

lemma numerical_values_sublist:
  assumes "create_content_fingerprint H now (Inr doc) = Inr fp" "v \<in> set (numerical_values fp)"
  shows "sublist v (full_text_of doc)"
proof -
  from assms(1) have "numerical_values fp =
      fromkeys [] (extend_matches numerical_patterns (full_text_of doc) [])"
    by (auto simp: create_content_fingerprint_def Let_def)
  with assms(2) obtain p where "v \<in> set (findall p (full_text_of doc))"
    by (auto simp: fromkeys_set extend_matches_set)
  then show ?thesis by (rule findall_sublist)
qed

subsection \<open>Round trip of the fingerprint\<close>

text \<open>
  Claim C3. For every document that opens, validating the canonical full text of the
  document (the texts of its non-empty paragraphs joined by line breaks, unmodified)
  against the fingerprint built from that document passes all four checks: the report
  has \<open>overall_valid = True\<close> and no missing value. This holds for every digest
  function \<open>H\<close> and every clock reading.
\<close>

theorem round_trip_integrity:
  "case create_content_fingerprint H now (Inr doc) of
     Inl e \<Rightarrow> False
   | Inr fp \<Rightarrow>
       (let report = validate_content_integrity H fp (full_text_of doc) in
        content_hash_match report \<and> word_count_match report \<and> character_count_match report \<and>
        numerical_values_preserved report \<and> missing_values report = [] \<and> overall_valid report)"
proof -
  obtain fp where fp: "create_content_fingerprint H now (Inr doc) = Inr fp"
    by (simp add: create_content_fingerprint_def Let_def)
  have all: "list_all (contains (full_text_of doc)) (numerical_values fp)"
    using numerical_values_sublist [OF fp] by (simp add: list_all_iff contains_iff_sublist)
  then have none: "filter (\<lambda>v. \<not> contains (full_text_of doc) v) (numerical_values fp) = []"
    by (simp add: list_all_iff filter_empty_conv)
  from fp have fields: "full_text_hash fp = H (full_text_of doc)"
      "word_count fp = length (split_ws (full_text_of doc))"
      "character_count fp = length (full_text_of doc)"
    by (auto simp: create_content_fingerprint_def Let_def)
  show ?thesis
    by (simp add: fp validate_content_integrity_def Let_def check_values_eq all none fields)
qed

theorem round_trip_integrity_witness:
  "case create_content_fingerprint (\<lambda>x. x) 0 (Inr doc_scenario3) of
     Inl e \<Rightarrow> False
   | Inr fp \<Rightarrow> overall_valid (validate_content_integrity (\<lambda>x. x) fp (full_text_of doc_scenario3))"
  using round_trip_integrity [where H = "\<lambda>x. x" and now = 0 and doc = doc_scenario3]
  by (simp add: Let_def split: sum.splits)

subsection \<open>The safety classifier\<close>










lemma scenario3_values:
  "fromkeys [] (extend_matches numerical_patterns (full_text_of doc_scenario3) []) =
     [u ''000.00'', u ''$15,000.00'', u ''15,000'', u ''00'', u ''15'']"
  by code_simp

text \<open>
  Claim C2 says that \<open>Total cost is $15,000.00 with 15% discount.\<close> is classified
  REQUIRES_REVIEW and that the fingerprint of a document with this text lists both
  \<open>$15,000.00\<close> and \<open>15%\<close>. The code classifies the text CRITICAL (with IGNORECASE the
  acronym pattern matches the word \<open>Total\<close>, and three numerical patterns match as well),
  and the fingerprint lists \<open>000.00\<close>, \<open>$15,000.00\<close>, \<open>15,000\<close>, \<open>00\<close> and \<open>15\<close> but
  not \<open>15%\<close>: the percentage pattern ends in a word boundary, and there is none between
  \<open>%\<close> and a blank.
\<close>

theorem scenario3_code_behaviour:
  "assess_paragraph_safety (u ''Total cost is $15,000.00 with 15% discount.'') = CONTENT_CRITICAL
   \<and> (case create_content_fingerprint H now (Inr doc_scenario3) of
        Inl e \<Rightarrow> False
      | Inr fp \<Rightarrow>
          numerical_values fp = [u ''000.00'', u ''$15,000.00'', u ''15,000'', u ''00'', u ''15'']
          \<and> u ''15%'' \<notin> set (numerical_values fp))"
proof
  show "assess_paragraph_safety (u ''Total cost is $15,000.00 with 15% discount.'') = CONTENT_CRITICAL"
    by code_simp
  have "u ''15%'' \<notin> set [u ''000.00'', u ''$15,000.00'', u ''15,000'', u ''00'', u ''15'']"
    by code_simp
  then show "case create_content_fingerprint H now (Inr doc_scenario3) of
        Inl e \<Rightarrow> False
      | Inr fp \<Rightarrow>
          numerical_values fp = [u ''000.00'', u ''$15,000.00'', u ''15,000'', u ''00'', u ''15'']
          \<and> u ''15%'' \<notin> set (numerical_values fp)"
    by (simp add: create_content_fingerprint_def Let_def scenario3_values)
qed



text \<open>
  Claim C6 says that a paragraph yields at most one prohibited zone, the scan stopping at
  the first category that matches. In the code the \<open>break\<close> leaves the loop over the
  patterns of one category only, so a paragraph yields one zone for every category with
  a matching pattern: the paragraph \<open>Step 1\<close> yields three zones, all for paragraph 0
  (every zone is CRITICAL, as the claim says).
\<close>

theorem zones_per_paragraph_code_behaviour:
  "case identify_prohibited_zones H (Inr doc_step1) of
     Inl e \<Rightarrow> False
   | Inr zones \<Rightarrow>
       map zone_type zones = [''procedural_language'', ''technical_terms'', ''numerical_values'']
       \<and> map start_paragraph zones = [0, 0, 0]
       \<and> map safety_level zones = [CONTENT_CRITICAL, CONTENT_CRITICAL, CONTENT_CRITICAL]"
proof -
  have 1: "map (\<lambda>(zt, ps). any_pattern ps (u ''Step 1'')) prohibited_patterns = [True, True, True, False]"
    by code_simp
  have zp: "zone_of_patterns H zt i t ps =
      (if any_pattern ps t
       then [\<lparr> zone_type = zt, start_paragraph = i, end_paragraph = i, content_hash = H t,
               safety_level = CONTENT_CRITICAL, text_sample = take 100 t \<rparr>] else [])" for zt i t ps
    by (induction ps) auto
  have 2: "strip (u ''Step 1'') \<noteq> []" by code_simp
  from 1 show ?thesis
    by (simp add: identify_prohibited_zones_def doc_step1_def 2 zp prohibited_patterns_def)
qed

text \<open>
  Claim C9. Two runs of the fingerprint builder on the same document, at two clock
  readings, give fingerprints with the same \<open>full_text_hash\<close>, \<open>paragraph_hashes\<close>,
  \<open>structure_hash\<close>, \<open>word_count\<close>, \<open>character_count\<close> and \<open>numerical_values\<close>; the
  \<open>timestamp\<close> of each is its own clock reading and is the only field that can differ:
  the second fingerprint is the first with its \<open>timestamp\<close> replaced.
\<close>

theorem fingerprint_stability:
  "case (create_content_fingerprint H t1 (Inr doc), create_content_fingerprint H t2 (Inr doc)) of
     (Inr a, Inr b) \<Rightarrow>
        full_text_hash a = full_text_hash b \<and> paragraph_hashes a = paragraph_hashes b
        \<and> structure_hash a = structure_hash b \<and> word_count a = word_count b
        \<and> character_count a = character_count b \<and> numerical_values a = numerical_values b
        \<and> timestamp a = t1 \<and> timestamp b = t2 \<and> b = a\<lparr>timestamp := t2\<rparr>
   | _ \<Rightarrow> False"
proof -
  obtain a where a: "create_content_fingerprint H t1 (Inr doc) = Inr a"
    by (simp add: create_content_fingerprint_def Let_def)
  then have b: "create_content_fingerprint H t2 (Inr doc) = Inr (a\<lparr>timestamp := t2\<rparr>)"
    by (auto simp: create_content_fingerprint_def Let_def)
  from a have "timestamp a = t1"
    by (auto simp: create_content_fingerprint_def Let_def)
  with a b show ?thesis by simp
qed

theorem fingerprint_stability_witness:
  "case (create_content_fingerprint (\<lambda>x. x) 1 (Inr doc_scenario3),
         create_content_fingerprint (\<lambda>x. x) 2 (Inr doc_scenario3)) of
     (Inr a, Inr b) \<Rightarrow> numerical_values a = numerical_values b \<and> timestamp a \<noteq> timestamp b
   | _ \<Rightarrow> False"
proof (cases "create_content_fingerprint (\<lambda>x. x) 1 (Inr doc_scenario3)")
  case (Inl e)
  with fingerprint_stability [where H = "\<lambda>x. x" and ?t1.0 = 1 and ?t2.0 = 2 and doc = doc_scenario3]
  show ?thesis by simp
next
  case a: (Inr a)
  show ?thesis
  proof (cases "create_content_fingerprint (\<lambda>x. x) 2 (Inr doc_scenario3)")
    case (Inl e)
    with a fingerprint_stability [where H = "\<lambda>x. x" and ?t1.0 = 1 and ?t2.0 = 2 and doc = doc_scenario3]
    show ?thesis by simp
  next
    case b: (Inr b)
    from fingerprint_stability [where H = "\<lambda>x. x" and ?t1.0 = 1 and ?t2.0 = 2 and doc = doc_scenario3]
    have "numerical_values a = numerical_values b \<and> timestamp a = 1 \<and> timestamp b = 2"
      unfolding a b by (simp only: sum.case prod.case) blast
    then show ?thesis unfolding a b by simp
  qed
qed

subsection \<open>The filter pipeline\<close>

lemma filter_loop_fst:
  "fst (filter_loop f ps (kept, dbg)) = kept @ filter (\<lambda>p. f (strip (para_text p)) = None) ps"
  by (induction ps arbitrary: kept dbg) (auto simp: Let_def split: option.splits)

lemma classify_loop_fst:
  "fst (classify_loop ps (out, dbg)) =
     out @ map (\<lambda>para. \<lparr> c_text = strip (para_text para),
                          c_style = classify_paragraph (strip (para_text para)),
                          original_para = para \<rparr>) ps"
  by (induction ps arbitrary: out dbg) (auto simp: Let_def)




text \<open>
  Claim C10. Stage 1 and Stage 2 each return a subsequence of the paragraphs they are
  given (the kept paragraphs themselves, in their order, nothing added); Stage 3 returns
  one record for each paragraph, in order, whose \<open>original_para\<close> is that paragraph and
  whose text is the paragraph's text stripped, which is the text without a run of white
  space at its start and a run of white space at its end.
\<close>

theorem filter_pipeline_shape:
  "subseq (fst (stage1_navigation_filter ps)) ps
   \<and> subseq (fst (stage2_metadata_filter ps)) ps
   \<and> map original_para (fst (stage3_classify_content ps)) = ps
   \<and> map c_text (fst (stage3_classify_content ps)) = map (\<lambda>p. strip (para_text p)) ps
   \<and> (\<forall>p \<in> set ps. \<exists>a b. para_text p = a @ strip (para_text p) @ b
                         \<and> list_all isspace_cp a \<and> list_all isspace_cp b)"
proof (intro conjI ballI)
  show "subseq (fst (stage1_navigation_filter ps)) ps"
    by (simp add: stage1_navigation_filter_def filter_loop_fst)
  show "subseq (fst (stage2_metadata_filter ps)) ps"
    by (simp add: stage2_metadata_filter_def filter_loop_fst)
  show "map original_para (fst (stage3_classify_content ps)) = ps"
    by (simp add: stage3_classify_content_def classify_loop_fst comp_def)
  show "map c_text (fst (stage3_classify_content ps)) = map (\<lambda>p. strip (para_text p)) ps"
    by (simp add: stage3_classify_content_def classify_loop_fst comp_def)
  show "\<exists>a b. para_text p = a @ strip (para_text p) @ b
          \<and> list_all isspace_cp a \<and> list_all isspace_cp b" for p
    by (rule strip_decomp)
qed

theorem filter_pipeline_shape_witness:
  "subseq (fst (stage2_metadata_filter paras_blank)) paras_blank
   \<and> map c_text (fst (stage3_classify_content paras_blank)) =
       [u ''INTENTIONALLY LEFT BLANK'', u ''This page intentionally left blank.'', u ''General information'']"
proof -
  have "map (\<lambda>p. strip (para_text p)) paras_blank =
       [u ''INTENTIONALLY LEFT BLANK'', u ''This page intentionally left blank.'', u ''General information'']"
    by code_simp
  with filter_pipeline_shape [of paras_blank] show ?thesis by simp
qed

subsection \<open>Stage 3: upper-case headings\<close>





subsection \<open>The generated style sheet\<close>

lemma join_nlnl_last: "\<exists>pre. join_nlnl (xs @ [z]) = pre @ z"
proof (induction xs)
  case Nil
  show ?case by simp
next
  case (Cons x xs)
  then obtain pre where pre: "join_nlnl (xs @ [z]) = pre @ z" by blast
  show ?case
  proof (cases xs)
    case Nil
    then show ?thesis by simp
  next
    case (Cons y ys)
    with pre show ?thesis by simp
  qed
qed

lemma join_nl_sublist: "x \<in> set xs \<Longrightarrow> sublist x (join_nl xs)"
proof (induction xs rule: join_nl.induct)
  case 1
  then show ?case by simp
next
  case (2 y)
  then show ?case by simp
next
  case (3 y z zs)
  show ?case
  proof (cases "x = y")
    case True
    have "join_nl (y # z # zs) = [] @ y @ ([10] @ join_nl (z # zs))" by simp
    then show ?thesis unfolding True sublist_def by blast
  next
    case False
    with 3 have "sublist x (join_nl (z # zs))" by simp
    then obtain a b where "join_nl (z # zs) = a @ x @ b" unfolding sublist_def by blast
    then have "join_nl (y # z # zs) = (y @ [10] @ a) @ x @ b" by simp
    then show ?thesis unfolding sublist_def by blast
  qed
qed

lemma content_line: \<open>sublist (u ''content:'') (u ''        content: "";'')\<close>
  unfolding contains_iff_sublist [symmetric] by code_simp

lemma css_safety_content: "sublist (u ''content:'') css_safety"
proof -
  have \<open>sublist (u ''        content: "";'') css_safety\<close>
    unfolding css_safety_def
    by (rule join_nl_sublist) (simp only: list.set insert_iff simp_thms)
  with content_line show ?thesis by (rule sublist_order.order_trans)
qed

lemma lower_content: "lower (u ''content:'') = u ''content:''"
  by code_simp

lemma sublist_lower: "sublist p s \<Longrightarrow> sublist (lower p) (lower s)"
  unfolding sublist_def lower_def by (metis map_append)

lemma content_key_prohibited:
  "u ''content'' \<in> set prohibited_properties \<and> u ''content'' \<notin> set (visual_only @ layout_only)"
  by code_simp

text \<open>
  Claim C8 says that no content-affecting property appears anywhere in the emitted style
  sheet. For every style guide the style sheet that \<open>_generate_safe_css\<close> returns
  contains \<open>content:\<close> (also after lower-casing, which is what the repository's test
  looks at): the fixed last block sets the \<open>content\<close> property of two \<open>::before\<close>
  rules. \<open>content\<close> is on the engine's list of prohibited properties and not on its
  allow-list.
\<close>

theorem generated_css_has_content_property:
  "contains (generate_safe_css style_guide) (u ''content:'')
   \<and> contains (lower (generate_safe_css style_guide)) (u ''content:'')
   \<and> u ''content'' \<in> set prohibited_properties
   \<and> u ''content'' \<notin> set (visual_only @ layout_only)"
proof -
  obtain pre where "join_nlnl ((css_base # rule_blocks style_guide) @ [css_safety]) = pre @ css_safety"
    using join_nlnl_last by blast
  then have "generate_safe_css style_guide = pre @ css_safety @ []"
    by (simp add: generate_safe_css_def)
  then have "sublist css_safety (generate_safe_css style_guide)"
    unfolding sublist_def by blast
  with css_safety_content have 1: "sublist (u ''content:'') (generate_safe_css style_guide)"
    by (rule sublist_order.order_trans)
  from sublist_lower [OF 1] have 2: "sublist (u ''content:'') (lower (generate_safe_css style_guide))"
    by (simp add: lower_content)
  from 1 2 content_key_prohibited show ?thesis by (simp add: contains_iff_sublist)
qed

end
